theory Spec2Isabelle
  imports Complex_Main "HOL-Library.Sublist"
begin

section \<open>FASTA sequence length analysis: the model\<close>

text \<open>
  The program is \<^verbatim>\<open>count_long_sequences.py\<close>. Python integers are \<open>int\<close>, Python
  strings are \<open>string\<close> (one \<open>char\<close> per character of the sequence; FASTA bodies are
  ASCII), true division and the statistics computed from it are exact rationals (\<open>rat\<close>)
  where the program uses floating point. Exceptions are values of \<open>py_error\<close>.
\<close>

datatype py_error = ValueError | ZeroDivisionError | SystemExit int | ParserError

text \<open>
  A record as \<^verbatim>\<open>Bio.SeqIO\<close> hands it to the loop: the two attributes the program reads,
  \<^verbatim>\<open>record.id\<close> and \<^verbatim>\<open>str(record.seq)\<close>.
\<close>

record seq_record =
  rec_id :: string
  rec_seq :: string

text \<open>
  \<^verbatim>\<open>SeqIO.parse(fasta_file, "fasta")\<close> is an iterator of the Biopython library. The model
  takes what it yields as input: each item is a record, or the exception the parser
  raises at that point of the iteration.
\<close>

type_synonym fasta = "(py_error + seq_record) list"

subsection \<open>String replacement\<close>

text \<open>
  Python's \<^verbatim>\<open>s.replace(old, new)\<close>: a scan from the left that replaces every
  non-overlapping occurrence of \<open>old\<close>; for an empty \<open>old\<close> it puts \<open>new\<close> before every
  character and at the end.
\<close>

function str_replace :: "string \<Rightarrow> string \<Rightarrow> string \<Rightarrow> string" where
  "str_replace old new [] = (if old = [] then new else [])"
| "str_replace old new (c # cs) =
     (if old = [] then new @ c # str_replace old new cs
      else if prefix old (c # cs)
        then new @ str_replace old new (drop (length old) (c # cs))
        else c # str_replace old new cs)"
  by pat_completeness auto
termination
  by (relation "measure (\<lambda>(old, new, s). length s)") auto

subsection \<open>The analyzer: \<^verbatim>\<open>count_long_sequences\<close>\<close>

text \<open>
  Lines 34 and 35: \<^verbatim>\<open>cleaned_seq = str(record.seq).replace("-", "")\<close> and
  \<^verbatim>\<open>seq_length = len(cleaned_seq)\<close>.
\<close>

definition cleaned_seq :: "seq_record \<Rightarrow> string" where
  "cleaned_seq record = str_replace ''-'' '''' (rec_seq record)"

definition seq_length :: "seq_record \<Rightarrow> int" where
  "seq_length record = int (length (cleaned_seq record))"

text \<open>
  The four accumulators of the loop, in the order of the returned tuple:
  \<open>(long_count, total_count, long_ids, all_lengths)\<close>.
\<close>

type_synonym analysis = "int \<times> int \<times> string list \<times> int list"

text \<open>One iteration of the loop body, lines 33 to 40.\<close>

fun seq_step :: "int \<Rightarrow> analysis \<Rightarrow> seq_record \<Rightarrow> analysis" where
  "seq_step min_length (long_count, total_count, long_ids, all_lengths) record =
     (if seq_length record > min_length
      then (long_count + 1, total_count + 1, long_ids @ [rec_id record],
            all_lengths @ [seq_length record])
      else (long_count, total_count + 1, long_ids, all_lengths @ [seq_length record]))"

text \<open>The \<^verbatim>\<open>for\<close> loop: an exception of the parser leaves the function at once.\<close>

fun seq_loop :: "int \<Rightarrow> analysis \<Rightarrow> fasta \<Rightarrow> py_error + analysis" where
  "seq_loop min_length st [] = Inr st"
| "seq_loop min_length st (Inl e # rest) = Inl e"
| "seq_loop min_length st (Inr record # rest) =
     seq_loop min_length (seq_step min_length st record) rest"

definition count_long_sequences :: "fasta \<Rightarrow> int \<Rightarrow> py_error + analysis" where
  "count_long_sequences fasta_file min_length = seq_loop min_length (0, 0, [], []) fasta_file"

subsection \<open>The distribution binner (lines 184 to 198 of \<^verbatim>\<open>generate_report\<close>)\<close>

text \<open>
  The bin edges are Python integers and the float \<^verbatim>\<open>float('inf')\<close>. Python compares an
  integer with a float exactly, and infinity is above every integer.
\<close>

datatype edge = Fin int | PInf

fun edge_le :: "edge \<Rightarrow> edge \<Rightarrow> bool" where
  "edge_le (Fin a) (Fin b) = (a \<le> b)"
| "edge_le (Fin a) PInf = True"
| "edge_le PInf (Fin b) = False"
| "edge_le PInf PInf = True"

fun edge_lt :: "edge \<Rightarrow> edge \<Rightarrow> bool" where
  "edge_lt (Fin a) (Fin b) = (a < b)"
| "edge_lt (Fin a) PInf = True"
| "edge_lt PInf b = False"

definition bins :: "int \<Rightarrow> edge list" where
  "bins min_length = [Fin 0, Fin 100, Fin 300, Fin min_length, Fin 500, Fin 1000, PInf]"

text \<open>
  The labels are format strings over the threshold; a label is kept as the numbers it
  prints: \<open>Below 100\<close> is \<^verbatim>\<open><100\<close>, \<open>Between 300 t\<close> is \<^verbatim>\<open>300-{t}\<close>, \<open>Above 1000\<close> is
  \<^verbatim>\<open>>1000\<close>.
\<close>

datatype bucket_label = Below int | Between int int | Above int

definition labels :: "int \<Rightarrow> bucket_label list" where
  "labels min_length =
     [Below 100, Between 100 300, Between 300 min_length, Between min_length 500,
      Between 500 1000, Above 1000]"

text \<open>
  The inner loop \<^verbatim>\<open>for i in range(len(bins)-1)\<close> with its \<^verbatim>\<open>break\<close>: the first index
  whose range holds the length, or \<open>None\<close> when the loop runs to its \<^verbatim>\<open>else\<close> clause.
\<close>

fun find_bin :: "edge list \<Rightarrow> int \<Rightarrow> nat list \<Rightarrow> nat option" where
  "find_bin bs l [] = None"
| "find_bin bs l (i # rest) =
     (if edge_le (bs ! i) (Fin l) \<and> edge_lt (Fin l) (bs ! (i + 1)) then Some i
      else find_bin bs l rest)"

text \<open>
  One iteration of the outer loop. The \<^verbatim>\<open>else\<close> clause compares the length with
  \<^verbatim>\<open>bins[-1]\<close> and would count it in \<^verbatim>\<open>bin_counts[-1]\<close>.
\<close>

definition count_length :: "edge list \<Rightarrow> int list \<Rightarrow> int \<Rightarrow> int list" where
  "count_length bs bin_counts l =
     (case find_bin bs l [0 ..< length bs - 1] of
        Some i \<Rightarrow> bin_counts[i := bin_counts ! i + 1]
      | None \<Rightarrow>
          if edge_le (last bs) (Fin l)
          then bin_counts[length bin_counts - 1 := last bin_counts + 1]
          else bin_counts)"

text \<open>\<^verbatim>\<open>bin_counts = [0] * len(bins)\<close> has seven entries, one more than there are labels.\<close>

definition bin_counts :: "int \<Rightarrow> int list \<Rightarrow> int list" where
  "bin_counts min_length all_lengths =
     fold (\<lambda>l counts. count_length (bins min_length) counts l) all_lengths
       (replicate (length (bins min_length)) 0)"

text \<open>
  \<^verbatim>\<open>zip(labels, bin_counts)\<close> pairs the six labels with the first six counts: these are
  the rows of the distribution block.
\<close>

definition distribution :: "int \<Rightarrow> int list \<Rightarrow> (bucket_label \<times> int) list" where
  "distribution min_length all_lengths = zip (labels min_length) (bin_counts min_length all_lengths)"

subsection \<open>Statistics\<close>

fun py_min :: "int list \<Rightarrow> py_error + int" where
  "py_min [] = Inl ValueError"
| "py_min (x # xs) = Inr (fold min xs x)"

fun py_max :: "int list \<Rightarrow> py_error + int" where
  "py_max [] = Inl ValueError"
| "py_max (x # xs) = Inr (fold max xs x)"

definition py_truediv :: "int \<Rightarrow> int \<Rightarrow> py_error + rat" where
  "py_truediv a b = (if b = 0 then Inl ZeroDivisionError else Inr (of_int a / of_int b))"

text \<open>
  \<^verbatim>\<open>np.median\<close>: the middle of the sorted list, or the mean of the two middle values;
  \<open>None\<close> is the \<^verbatim>\<open>nan\<close> numpy returns for an empty list.
\<close>

definition median :: "int list \<Rightarrow> rat option" where
  "median xs =
     (let s = sort xs; n = length s
      in if n = 0 then None
         else if odd n then Some (of_int (s ! (n div 2)))
         else Some ((of_int (s ! (n div 2 - 1)) + of_int (s ! (n div 2))) / 2))"

text \<open>Line 152: the headline percentage, guarded against an empty corpus.\<close>

definition percentage :: "int \<Rightarrow> int \<Rightarrow> rat" where
  "percentage long_count total_count =
     (if total_count > 0 then of_int long_count / of_int total_count * 100 else 0)"

subsection \<open>The report: \<^verbatim>\<open>generate_report\<close>\<close>

record args =
  arg_input :: string
  arg_output :: string
  arg_min_length :: int

text \<open>
  The report file is the list of the \<^verbatim>\<open>f.write\<close> calls made on it, in order. A chunk
  keeps the values its format string prints, not the formatted text.
\<close>

datatype chunk =
    Title | Rule80 | Timestamp string | InputFile string | OutputFile string
  | Threshold int | Dashes80
  | TotalCount int | LongCount int | LongPercent rat | Blank
  | StatsHeading | Dashes60
  | Shortest int | Longest int | MeanLength rat | MedianLength "rat option"
  | DistHeading | BucketLine bucket_label int rat
  | IdsHeading | FoundCount int | IdEntry int string | IdSeparator

text \<open>Lines 159 to 175: nothing here can raise.\<close>

definition write_head :: "args \<Rightarrow> string \<Rightarrow> int \<Rightarrow> int \<Rightarrow> chunk list" where
  "write_head args timestamp long_count total_count =
     [Title, Rule80, Timestamp timestamp, InputFile (arg_input args),
      OutputFile (arg_output args), Threshold (arg_min_length args), Dashes80,
      TotalCount total_count, LongCount long_count,
      LongPercent (percentage long_count total_count), Blank,
      StatsHeading, Dashes60]"

text \<open>
  Lines 176 to 179. Each value is computed before its line is written, so an exception
  leaves the file with the lines written so far.
\<close>

definition write_stats :: "int list \<Rightarrow> chunk list \<Rightarrow> (py_error + unit) \<times> chunk list" where
  "write_stats all_lengths f =
     (case py_min all_lengths of
        Inl e \<Rightarrow> (Inl e, f)
      | Inr lo \<Rightarrow>
        (case py_max all_lengths of
           Inl e \<Rightarrow> (Inl e, f @ [Shortest lo])
         | Inr hi \<Rightarrow>
           (case py_truediv (sum_list all_lengths) (int (length all_lengths)) of
              Inl e \<Rightarrow> (Inl e, f @ [Shortest lo, Longest hi])
            | Inr mean \<Rightarrow>
                (Inr (), f @ [Shortest lo, Longest hi, MeanLength mean,
                              MedianLength (median all_lengths)]))))"

text \<open>Lines 200 to 202: \<^verbatim>\<open>count / total_count * 100\<close> is computed for each row in turn.\<close>

fun write_buckets ::
  "int \<Rightarrow> (bucket_label \<times> int) list \<Rightarrow> chunk list \<Rightarrow> (py_error + unit) \<times> chunk list" where
  "write_buckets total_count [] f = (Inr (), f)"
| "write_buckets total_count ((label, count) # rest) f =
     (case py_truediv count total_count of
        Inl e \<Rightarrow> (Inl e, f)
      | Inr q \<Rightarrow> write_buckets total_count rest (f @ [BucketLine label count (q * 100)]))"

text \<open>Lines 208 to 211: the numbered identifiers, with a separator after every 50th.\<close>

fun write_ids :: "nat \<Rightarrow> string list \<Rightarrow> chunk list" where
  "write_ids i [] = []"
| "write_ids i (seq_id # rest) =
     IdEntry (int i + 1) seq_id
       # (if (i + 1) mod 50 = 0 then [IdSeparator] else []) @ write_ids (i + 1) rest"

text \<open>
  The function returns its message (kept as the path it names) or raises, and in both
  cases leaves the file with what was written: the \<^verbatim>\<open>with\<close> block closes it.
  The timestamp is \<^verbatim>\<open>datetime.now()\<close>, an input here.
\<close>

definition generate_report ::
  "args \<Rightarrow> string \<Rightarrow> int \<Rightarrow> int \<Rightarrow> string list \<Rightarrow> int list
     \<Rightarrow> (py_error + string) \<times> chunk list" where
  "generate_report args timestamp long_count total_count long_ids all_lengths =
     (case write_stats all_lengths (write_head args timestamp long_count total_count) of
        (Inl e, f) \<Rightarrow> (Inl e, f)
      | (Inr u, f) \<Rightarrow>
        (case write_buckets total_count (distribution (arg_min_length args) all_lengths)
                (f @ [DistHeading, Dashes60]) of
           (Inl e, f) \<Rightarrow> (Inl e, f)
         | (Inr u, f) \<Rightarrow>
             (Inr (arg_output args),
              f @ [IdsHeading, Dashes60, FoundCount (int (length long_ids))]
                @ write_ids 0 long_ids)))"

text \<open>Reading a report back: the percentages of its distribution rows, in order.\<close>

fun bucket_percents :: "chunk list \<Rightarrow> rat list" where
  "bucket_percents [] = []"
| "bucket_percents (BucketLine label count percent # f) = percent # bucket_percents f"
| "bucket_percents (c # f) = bucket_percents f"

subsection \<open>The run: \<^verbatim>\<open>main\<close>\<close>




section \<open>Properties\<close>

subsection \<open>Gap removal\<close>

lemma str_replace_gap: "str_replace ''-'' '''' s = filter (\<lambda>c. c \<noteq> CHR ''-'') s"
  by (induction s) auto

lemma seq_length_filter:
  "seq_length r = int (length (filter (\<lambda>c. c \<noteq> CHR ''-'') (rec_seq r)))"
  by (simp add: seq_length_def cleaned_seq_def str_replace_gap)

lemma length_filter_count:
  "length (filter (\<lambda>c. c \<noteq> x) s) + count_list s x = length s"
  by (induction s) auto

lemma seq_length_nonneg: "0 \<le> seq_length r"
  by (simp add: seq_length_def)

text \<open>
  Claim C3, as the program computes it. The body \<open>MK--VLA-\<close> has eight characters, three
  of them gaps, so the record with identifier \<open>seq1\<close> and this body has normalized length 5:
  the analyzer records the length 5 for it, lists \<open>seq1\<close> as long under the threshold 4,
  and does not under the threshold 5 (the comparison is strict) nor under the default 428.
\<close>

theorem seq1_normalized_length:
  "seq_length \<lparr>rec_id = ''seq1'', rec_seq = ''MK--VLA-''\<rparr> = 5
   \<and> count_long_sequences [Inr \<lparr>rec_id = ''seq1'', rec_seq = ''MK--VLA-''\<rparr>] 4
       = Inr (1, 1, [''seq1''], [5])
   \<and> count_long_sequences [Inr \<lparr>rec_id = ''seq1'', rec_seq = ''MK--VLA-''\<rparr>] 5
       = Inr (0, 1, [], [5])
   \<and> count_long_sequences [Inr \<lparr>rec_id = ''seq1'', rec_seq = ''MK--VLA-''\<rparr>] 428
       = Inr (0, 1, [], [5])"
  by (simp add: count_long_sequences_def seq_length_filter)

text \<open>
  Claim C3 as written asks for the normalized length 6; the program does not produce it.
\<close>

theorem seq1_length_not_six:
  "seq_length \<lparr>rec_id = ''seq1'', rec_seq = ''MK--VLA-''\<rparr> \<noteq> 6
   \<and> count_long_sequences [Inr \<lparr>rec_id = ''seq1'', rec_seq = ''MK--VLA-''\<rparr>] 428
       \<noteq> Inr (0, 1, [], [6])"
  by (simp add: count_long_sequences_def seq_length_filter)

subsection \<open>The analyzer in closed form\<close>

text \<open>
  When the parser raises nothing, the loop returns the number of long records, the number
  of records, the identifiers of the long records and the lengths of all records, the
  last two in parse order.
\<close>

lemma seq_loop_records:
  "seq_loop t (lc, tc, ids, ls) (map Inr rs) =
     Inr (lc + int (length (filter (\<lambda>r. seq_length r > t) rs)), tc + int (length rs),
          ids @ map rec_id (filter (\<lambda>r. seq_length r > t) rs), ls @ map seq_length rs)"
  by (induction rs arbitrary: lc tc ids ls) simp_all

lemma count_long_sequences_records:
  "count_long_sequences (map Inr rs) t =
     Inr (int (length (filter (\<lambda>r. seq_length r > t) rs)), int (length rs),
          map rec_id (filter (\<lambda>r. seq_length r > t) rs), map seq_length rs)"
  by (simp add: count_long_sequences_def seq_loop_records)

text \<open>A run that returns has met no exception of the parser.\<close>

lemma seq_loop_Inr_records: "seq_loop t st fasta = Inr res \<Longrightarrow> \<exists>rs. fasta = map Inr rs"
proof (induction t st fasta rule: seq_loop.induct)
  case (1 min_length st)
  then show ?case by simp
next
  case (2 min_length st e rest)
  then show ?case by simp
next
  case (3 min_length st r rest)
  then obtain rs where "rest = map Inr rs" by auto
  then have "Inr r # rest = map Inr (r # rs)" by simp
  then show ?case by (rule exI)
qed

lemma count_long_sequences_Inr:
  assumes "count_long_sequences fasta t = Inr res"
  obtains rs where "fasta = map Inr rs"
    and "res = (int (length (filter (\<lambda>r. seq_length r > t) rs)), int (length rs),
          map rec_id (filter (\<lambda>r. seq_length r > t) rs), map seq_length rs)"
proof -
  from assms obtain rs where rs: "fasta = map Inr rs"
    unfolding count_long_sequences_def by (blast dest: seq_loop_Inr_records)
  with assms count_long_sequences_records [of rs t] that show thesis by simp
qed

text \<open>
  Claim C4. For every record the normalized length is the number of characters of the
  body once every gap character is removed: the cleaned sequence is the body filtered of
  \<open>-\<close>, its length is the length of the body minus the number of gaps in it, wherever
  they stand, and these are the lengths the analyzer returns. The bodies \<open>AC--GT\<close> and
  \<open>ACGT--\<close> both have length 4.
\<close>

theorem normalized_length_ignores_gaps:
  "cleaned_seq r = filter (\<lambda>c. c \<noteq> CHR ''-'') (rec_seq r)
   \<and> seq_length r = int (length (rec_seq r)) - int (count_list (rec_seq r) (CHR ''-''))
   \<and> (\<exists>lc tc ids. count_long_sequences (map Inr rs) t =
         Inr (lc, tc, ids,
              map (\<lambda>r. int (length (filter (\<lambda>c. c \<noteq> CHR ''-'') (rec_seq r)))) rs))
   \<and> seq_length \<lparr>rec_id = a, rec_seq = ''AC--GT''\<rparr> = 4
   \<and> seq_length \<lparr>rec_id = b, rec_seq = ''ACGT--''\<rparr> = 4"
proof -
  have "cleaned_seq r = filter (\<lambda>c. c \<noteq> CHR ''-'') (rec_seq r)"
    by (simp add: cleaned_seq_def str_replace_gap)
  moreover have "seq_length r = int (length (rec_seq r)) - int (count_list (rec_seq r) (CHR ''-''))"
    using length_filter_count [of "CHR ''-''" "rec_seq r"] by (simp add: seq_length_filter)
  moreover have "map seq_length rs =
      map (\<lambda>r. int (length (filter (\<lambda>c. c \<noteq> CHR ''-'') (rec_seq r)))) rs"
    by (simp add: seq_length_filter)
  then have "\<exists>lc tc ids. count_long_sequences (map Inr rs) t =
         Inr (lc, tc, ids,
              map (\<lambda>r. int (length (filter (\<lambda>c. c \<noteq> CHR ''-'') (rec_seq r)))) rs)"
    by (simp add: count_long_sequences_records)
  moreover have "seq_length \<lparr>rec_id = a, rec_seq = ''AC--GT''\<rparr> = 4"
    by (simp add: seq_length_filter)
  moreover have "seq_length \<lparr>rec_id = b, rec_seq = ''ACGT--''\<rparr> = 4"
    by (simp add: seq_length_filter)
  ultimately show ?thesis by blast
qed

text \<open>
  Claim C5. For every corpus and threshold, \<open>long_count\<close> is the length of \<open>long_ids\<close>,
  both are the number of lengths strictly above the threshold, and \<open>long_ids\<close> lists the
  identifiers of exactly those records in parse order. The comparison is strict: a record
  whose length equals the threshold fails \<open>seq_length r > t\<close>.
\<close>

theorem long_count_and_ids:
  assumes "count_long_sequences (map Inr records) t
             = Inr (long_count, total_count, long_ids, all_lengths)"
  shows "long_count = int (length long_ids)
       \<and> long_count = int (length (filter (\<lambda>l. l > t) all_lengths))
       \<and> long_ids = map rec_id (filter (\<lambda>r. seq_length r > t) records)"
proof -
  have "filter (\<lambda>l. l > t) (map seq_length records)
          = map seq_length (filter (\<lambda>r. seq_length r > t) records)"
    by (simp add: filter_map comp_def)
  then have "length (filter (\<lambda>l. l > t) (map seq_length records))
          = length (filter (\<lambda>r. seq_length r > t) records)"
    by simp
  moreover from assms
  have "long_count = int (length (filter (\<lambda>r. seq_length r > t) records))"
    and "long_ids = map rec_id (filter (\<lambda>r. seq_length r > t) records)"
    and "all_lengths = map seq_length records"
    by (simp_all add: count_long_sequences_records)
  ultimately show ?thesis by simp
qed

text \<open>
  Four records of lengths 3, 4, 1 and 5 under the threshold 3: the record of length 3 is
  not long.
\<close>

theorem long_count_and_ids_witness:
  "count_long_sequences
     (map Inr [\<lparr>rec_id = ''a'', rec_seq = ''MK-V''\<rparr>, \<lparr>rec_id = ''b'', rec_seq = ''MKV-L''\<rparr>,
               \<lparr>rec_id = ''c'', rec_seq = ''M--''\<rparr>, \<lparr>rec_id = ''d'', rec_seq = ''MKVLA''\<rparr>]) 3
     = Inr (2, 4, [''b'', ''d''], [3, 4, 1, 5])
   \<and> (2::int) = int (length [''b'', ''d''])
   \<and> (2::int) = int (length (filter (\<lambda>l. l > 3) [3, 4, 1, 5::int]))"
proof -
  have run: "count_long_sequences
     (map Inr [\<lparr>rec_id = ''a'', rec_seq = ''MK-V''\<rparr>, \<lparr>rec_id = ''b'', rec_seq = ''MKV-L''\<rparr>,
               \<lparr>rec_id = ''c'', rec_seq = ''M--''\<rparr>, \<lparr>rec_id = ''d'', rec_seq = ''MKVLA''\<rparr>]) 3
     = Inr (2, 4, [''b'', ''d''], [3, 4, 1, 5])"
    by (simp add: count_long_sequences_def seq_length_filter)
  from long_count_and_ids [OF run] run show ?thesis by (simp add: seq_length_filter)
qed

text \<open>
  Claim C9. For a fixed input the long count does not grow with the threshold: for
  thresholds \<open>t1 \<le> t2\<close>, the long count under \<open>t2\<close> is at most the one under \<open>t1\<close>, and the
  identifiers listed under \<open>t2\<close> are a subsequence of those listed under \<open>t1\<close>.
\<close>

theorem long_count_antitone:
  assumes "t1 \<le> t2"
    and "count_long_sequences fasta t1 = Inr (lc1, tc1, ids1, ls1)"
    and "count_long_sequences fasta t2 = Inr (lc2, tc2, ids2, ls2)"
  shows "lc2 \<le> lc1 \<and> subseq ids2 ids1"
proof -
  from assms(2) obtain rs where rs: "fasta = map Inr rs"
    and r1: "(lc1, tc1, ids1, ls1) =
        (int (length (filter (\<lambda>r. seq_length r > t1) rs)), int (length rs),
          map rec_id (filter (\<lambda>r. seq_length r > t1) rs), map seq_length rs)"
    by (rule count_long_sequences_Inr)
  from assms(3) rs have r2: "(lc2, tc2, ids2, ls2) =
        (int (length (filter (\<lambda>r. seq_length r > t2) rs)), int (length rs),
          map rec_id (filter (\<lambda>r. seq_length r > t2) rs), map seq_length rs)"
    by (simp add: count_long_sequences_records)
  have nest: "filter (\<lambda>r. seq_length r > t2) rs
          = filter (\<lambda>r. seq_length r > t2) (filter (\<lambda>r. seq_length r > t1) rs)"
    using assms(1) by (auto intro: filter_cong)
  have "length (filter (\<lambda>r. seq_length r > t2) rs)
          \<le> length (filter (\<lambda>r. seq_length r > t1) rs)"
    by (subst nest) (rule length_filter_le)
  moreover have "subseq (map rec_id (filter (\<lambda>r. seq_length r > t2) rs))
                        (map rec_id (filter (\<lambda>r. seq_length r > t1) rs))"
    by (subst nest) (rule subseq_map, rule subseq_filter_left)
  ultimately show ?thesis using r1 r2 by simp
qed

theorem long_count_antitone_witness:
  "count_long_sequences
     [Inr \<lparr>rec_id = ''a'', rec_seq = ''MK-V''\<rparr>, Inr \<lparr>rec_id = ''b'', rec_seq = ''MKV-L''\<rparr>,
      Inr \<lparr>rec_id = ''c'', rec_seq = ''MKVLA''\<rparr>] 2 = Inr (3, 3, [''a'', ''b'', ''c''], [3, 4, 5])
   \<and> count_long_sequences
     [Inr \<lparr>rec_id = ''a'', rec_seq = ''MK-V''\<rparr>, Inr \<lparr>rec_id = ''b'', rec_seq = ''MKV-L''\<rparr>,
      Inr \<lparr>rec_id = ''c'', rec_seq = ''MKVLA''\<rparr>] 4 = Inr (1, 3, [''c''], [3, 4, 5])
   \<and> (1::int) \<le> 3 \<and> subseq [''c''] [''a'', ''b'', ''c'']"
proof -
  have le: "(2::int) \<le> 4" by simp
  have r1: "count_long_sequences
     [Inr \<lparr>rec_id = ''a'', rec_seq = ''MK-V''\<rparr>, Inr \<lparr>rec_id = ''b'', rec_seq = ''MKV-L''\<rparr>,
      Inr \<lparr>rec_id = ''c'', rec_seq = ''MKVLA''\<rparr>] 2 = Inr (3, 3, [''a'', ''b'', ''c''], [3, 4, 5])"
    by (simp add: count_long_sequences_def seq_length_filter)
  have r2: "count_long_sequences
     [Inr \<lparr>rec_id = ''a'', rec_seq = ''MK-V''\<rparr>, Inr \<lparr>rec_id = ''b'', rec_seq = ''MKV-L''\<rparr>,
      Inr \<lparr>rec_id = ''c'', rec_seq = ''MKVLA''\<rparr>] 4 = Inr (1, 3, [''c''], [3, 4, 5])"
    by (simp add: count_long_sequences_def seq_length_filter)
  from long_count_antitone [OF le r1 r2] r1 r2 show ?thesis by simp
qed

text \<open>
  Claim C10. Whenever the analyzer returns, \<open>0 \<le> long_count \<le> total_count\<close>, the list
  \<open>all_lengths\<close> has \<open>total_count\<close> elements, and each of them is non-negative.
\<close>

theorem analysis_bounds:
  assumes "count_long_sequences fasta t = Inr (long_count, total_count, long_ids, all_lengths)"
  shows "0 \<le> long_count \<and> long_count \<le> total_count
       \<and> int (length all_lengths) = total_count \<and> (\<forall>l\<in>set all_lengths. 0 \<le> l)"
proof -
  from assms obtain rs where
    "(long_count, total_count, long_ids, all_lengths) =
        (int (length (filter (\<lambda>r. seq_length r > t) rs)), int (length rs),
          map rec_id (filter (\<lambda>r. seq_length r > t) rs), map seq_length rs)"
    by (rule count_long_sequences_Inr)
  then show ?thesis by (auto simp add: seq_length_nonneg)
qed

theorem analysis_bounds_witness:
  "count_long_sequences
     [Inr \<lparr>rec_id = ''a'', rec_seq = ''MK-V''\<rparr>, Inr \<lparr>rec_id = ''b'', rec_seq = ''---''\<rparr>,
      Inr \<lparr>rec_id = ''c'', rec_seq = ''MKVLA''\<rparr>] 2 = Inr (2, 3, [''a'', ''c''], [3, 0, 5])
   \<and> (0::int) \<le> 2 \<and> (2::int) \<le> 3 \<and> int (length [3, 0, 5::int]) = 3
   \<and> list_all (\<lambda>l. 0 \<le> l) [3, 0, 5::int]"
proof -
  have r: "count_long_sequences
     [Inr \<lparr>rec_id = ''a'', rec_seq = ''MK-V''\<rparr>, Inr \<lparr>rec_id = ''b'', rec_seq = ''---''\<rparr>,
      Inr \<lparr>rec_id = ''c'', rec_seq = ''MKVLA''\<rparr>] 2 = Inr (2, 3, [''a'', ''c''], [3, 0, 5])"
    by (simp add: count_long_sequences_def seq_length_filter)
  from analysis_bounds [OF r] r show ?thesis by simp
qed

text \<open>
  Claim C2, as the program behaves. An input that yields no record raises nothing in the
  analyzer: for every threshold it returns the counts 0 and 0 and two empty lists, and the
  headline percentage of the report is 0 by the guard of line 152 whenever the total
  count is 0.
\<close>

theorem empty_corpus_no_error:
  "count_long_sequences [] t = Inr (0, 0, [], []) \<and> percentage long_count 0 = 0"
  by (simp add: count_long_sequences_def percentage_def)

text \<open>
  Claim C2 as written asks for an error on the empty corpus; at the default threshold the
  analyzer returns zero-valued results instead, and the percentage defaults to 0.
\<close>

theorem empty_corpus_returns_zeros:
  "count_long_sequences [] 428 = Inr (0, 0, [], []) \<and> percentage 0 0 = 0"
  by (simp add: count_long_sequences_def percentage_def)

subsection \<open>The binner counts every length once\<close>

lemma upt6: "[0..<6] = [0, 1, 2, 3, 4, 5]"
  by (simp add: upt_rec)

lemma length_bins: "length (bins t) = 7"
  by (simp add: bins_def)

lemma length_labels: "length (labels t) = 6"
  by (simp add: labels_def)

text \<open>
  A non-negative length always leaves the inner loop by its \<^verbatim>\<open>break\<close>: below 300 and from
  500 on the fixed ranges hold it, and between 300 and 500 it is either below the
  threshold (third range) or not (fourth range).
\<close>

lemma find_bin_total:
  assumes "0 \<le> l"
  shows "\<exists>i<6. find_bin (bins t) l [0..<6] = Some i"
  using assms by (auto simp add: upt6 bins_def)

lemma find_bin_Some:
  "find_bin bs l idxs = Some i \<Longrightarrow>
     i \<in> set idxs \<and> edge_le (bs ! i) (Fin l) \<and> edge_lt (Fin l) (bs ! (i + 1))"
  by (induction idxs) (auto split: if_splits)

lemma edge_inverted: "edge_le b a \<Longrightarrow> edge_le a (Fin l) \<Longrightarrow> edge_lt (Fin l) b \<Longrightarrow> False"
  by (cases a; cases b) auto

lemma length_count_length: "length (count_length bs cs l) = length cs"
  by (simp add: count_length_def split: option.split)

lemma length_fold_count:
  "length (fold (\<lambda>l cs. count_length bs cs l) ls cs) = length cs"
  by (induction ls arbitrary: cs) (simp_all add: length_count_length)

lemma length_bin_counts: "length (bin_counts t ls) = 7"
  by (simp add: bin_counts_def length_fold_count length_bins)

lemma sum_list_update_inc:
  "i < length xs \<Longrightarrow> sum_list (xs[i := xs ! i + 1]) = sum_list xs + (1::int)"
proof (induction xs arbitrary: i)
  case Nil
  then show ?case by simp
next
  case (Cons x xs)
  then show ?case by (cases i) simp_all
qed

lemma count_length_sum:
  assumes "0 \<le> l" and "length cs = 7"
  shows "sum_list (take 6 (count_length (bins t) cs l)) = sum_list (take 6 cs) + 1"
proof -
  from find_bin_total [OF assms(1)] obtain i where i: "i < 6"
    and f: "find_bin (bins t) l [0..<6] = Some i" by blast
  have "count_length (bins t) cs l = cs[i := cs ! i + 1]"
    using f by (simp add: count_length_def length_bins)
  moreover have "take 6 (cs[i := cs ! i + 1]) = (take 6 cs)[i := take 6 cs ! i + 1]"
    using i by (simp add: take_update_swap)
  moreover have "i < length (take 6 cs)" using i assms(2) by simp
  ultimately show ?thesis by (simp only: sum_list_update_inc)
qed

lemma fold_count_sum:
  assumes "\<forall>l\<in>set ls. 0 \<le> l" and "length cs = 7"
  shows "sum_list (take 6 (fold (\<lambda>l cs. count_length (bins t) cs l) ls cs))
           = sum_list (take 6 cs) + int (length ls)"
  using assms
proof (induction ls arbitrary: cs)
  case Nil
  then show ?case by simp
next
  case (Cons l ls)
  have "length (count_length (bins t) cs l) = 7"
    using Cons.prems(2) by (simp add: length_count_length)
  with Cons show ?case by (simp add: count_length_sum)
qed

lemma map_snd_distribution: "map snd (distribution t ls) = take 6 (bin_counts t ls)"
  by (simp add: distribution_def map_snd_zip_take length_labels length_bin_counts)

lemma length_distribution: "length (distribution t ls) = 6"
  by (simp add: distribution_def length_labels length_bin_counts)

lemma distribution_total:
  assumes "\<forall>l\<in>set ls. 0 \<le> l"
  shows "sum_list (map snd (distribution t ls)) = int (length ls)"
proof -
  have "sum_list (take 6 (bin_counts t ls)) = int (length ls)"
    unfolding bin_counts_def using fold_count_sum [OF assms, of "replicate 7 0" t]
    by (simp add: length_bins sum_list_replicate)
  then show ?thesis by (simp add: map_snd_distribution)
qed

text \<open>
  Claim C1. For every list of record lengths (non-negative integers, as \<^verbatim>\<open>len\<close> gives
  them) and every integer threshold, degenerate ones included, the distribution has six
  rows and their counts sum to the number of lengths, which is \<open>total_count\<close>: every
  length is counted by exactly one of the six first-match ranges.
\<close>

theorem bucket_counts_sum_to_total:
  assumes "\<forall>l\<in>set all_lengths. 0 \<le> l"
  shows "length (distribution t all_lengths) = 6
       \<and> sum_list (map snd (distribution t all_lengths)) = int (length all_lengths)"
  using distribution_total [OF assms] by (simp add: length_distribution)

text \<open>The degenerate thresholds 50 and 600 of the specification.\<close>

theorem bucket_counts_sum_to_total_witness:
  "sum_list (map snd (distribution 50 [50, 430, 1200, 60, 300])) = 5
   \<and> distribution 50 [50, 430, 1200, 60, 300] =
       [(Below 100, 2), (Between 100 300, 0), (Between 300 50, 0), (Between 50 500, 2),
        (Between 500 1000, 0), (Above 1000, 1)]
   \<and> sum_list (map snd (distribution 600 [550, 600, 430])) = 3
   \<and> distribution 600 [550, 600, 430] =
       [(Below 100, 0), (Between 100 300, 0), (Between 300 600, 2), (Between 600 500, 0),
        (Between 500 1000, 1), (Above 1000, 0)]"
proof -
  have a: "\<forall>l\<in>set [50, 430, 1200, 60, 300::int]. 0 \<le> l" by simp
  have b: "\<forall>l\<in>set [550, 600, 430::int]. 0 \<le> l" by simp
  have "distribution 50 [50, 430, 1200, 60, 300] =
       [(Below 100, 2), (Between 100 300, 0), (Between 300 50, 0), (Between 50 500, 2),
        (Between 500 1000, 0), (Above 1000, 1)]"
    by (simp add: distribution_def bin_counts_def count_length_def bins_def labels_def upt_rec)
  moreover have "distribution 600 [550, 600, 430] =
       [(Below 100, 0), (Between 100 300, 0), (Between 300 600, 2), (Between 600 500, 0),
        (Between 500 1000, 1), (Above 1000, 0)]"
    by (simp add: distribution_def bin_counts_def count_length_def bins_def labels_def upt_rec)
  ultimately show ?thesis
    using bucket_counts_sum_to_total [OF a, of 50] bucket_counts_sum_to_total [OF b, of 600]
    by simp
qed

subsection \<open>Inverted ranges stay empty\<close>

lemma count_length_keeps_zero:
  assumes "i < 6" and "length cs = 7" and "edge_le (bins t ! Suc i) (bins t ! i)"
    and "cs ! i = 0"
  shows "count_length (bins t) cs l ! i = 0"
proof (cases "find_bin (bins t) l [0 ..< length (bins t) - 1]")
  case None
  then show ?thesis using assms by (simp add: count_length_def)
next
  case (Some j)
  from find_bin_Some [OF Some]
  have "edge_le (bins t ! j) (Fin l)" and "edge_lt (Fin l) (bins t ! (j + 1))" by simp_all
  with assms(3) have "j \<noteq> i" by (auto dest: edge_inverted)
  with Some assms(4) show ?thesis by (simp add: count_length_def)
qed

lemma fold_count_keeps_zero:
  assumes "i < 6" and "edge_le (bins t ! Suc i) (bins t ! i)"
  shows "length cs = 7 \<Longrightarrow> cs ! i = 0 \<Longrightarrow>
         fold (\<lambda>l cs. count_length (bins t) cs l) ls cs ! i = 0"
proof (induction ls arbitrary: cs)
  case Nil
  then show ?case by simp
next
  case (Cons l ls)
  have "length (count_length (bins t) cs l) = 7"
    using Cons.prems(1) by (simp add: length_count_length)
  moreover have "count_length (bins t) cs l ! i = 0"
    using assms Cons.prems by (simp add: count_length_keeps_zero)
  ultimately show ?case using Cons.IH by simp
qed

text \<open>
  Claim C6. A range whose upper edge is not above its lower edge matches no length: for
  every threshold, every list of lengths and each of the six rows \<open>i\<close>, if
  \<open>bins[i+1] \<le> bins[i]\<close> then row \<open>i\<close> of the distribution is its label with the count 0.
  The binner has no failing branch; it returns the rows. For the third row the condition
  is \<open>threshold \<le> 300\<close>, for the fourth \<open>500 \<le> threshold\<close>.
\<close>

theorem inverted_range_is_empty:
  assumes "i < 6" and "edge_le (bins t ! Suc i) (bins t ! i)"
  shows "distribution t all_lengths ! i = (labels t ! i, 0)"
proof -
  have "bin_counts t all_lengths ! i = 0"
    unfolding bin_counts_def using assms
    by (intro fold_count_keeps_zero) (simp_all add: length_bins)
  then show ?thesis using assms(1)
    by (simp add: distribution_def length_labels length_bin_counts)
qed

text \<open>The thresholds 300 (lower edge equals upper edge), 600 and 50.\<close>

theorem inverted_range_is_empty_witness:
  "distribution 300 [50, 300, 299, 430] ! 2 = (Between 300 300, 0)
   \<and> distribution 600 [550, 600, 430] ! 3 = (Between 600 500, 0)
   \<and> distribution 50 [50, 430, 60] ! 2 = (Between 300 50, 0)"
proof -
  have "edge_le (bins 300 ! Suc 2) (bins 300 ! 2)"
    and "edge_le (bins 600 ! Suc 3) (bins 600 ! 3)"
    and "edge_le (bins 50 ! Suc 2) (bins 50 ! 2)"
    by (simp_all add: bins_def)
  then show ?thesis
    using inverted_range_is_empty [of 2 300 "[50, 300, 299, 430]"]
      inverted_range_is_empty [of 3 600 "[550, 600, 430]"]
      inverted_range_is_empty [of 2 50 "[50, 430, 60]"]
    by (simp add: labels_def)
qed

subsection \<open>The report\<close>

lemma write_buckets_ok:
  "total_count \<noteq> 0 \<Longrightarrow>
   write_buckets total_count rows f =
     (Inr (), f @ map (\<lambda>(label, c). BucketLine label c (of_int c / of_int total_count * 100)) rows)"
  by (induction rows arbitrary: f) (auto simp add: py_truediv_def)

lemma write_stats_ok:
  "all_lengths \<noteq> [] \<Longrightarrow>
   \<exists>lo hi mean. write_stats all_lengths f =
     (Inr (), f @ [Shortest lo, Longest hi, MeanLength mean, MedianLength (median all_lengths)])"
  by (cases all_lengths) (simp_all add: write_stats_def py_truediv_def)

lemma bucket_percents_append:
  "bucket_percents (f @ g) = bucket_percents f @ bucket_percents g"
  by (induction f rule: bucket_percents.induct) simp_all

lemma bucket_percents_write_ids: "bucket_percents (write_ids i ids) = []"
  by (induction ids arbitrary: i) simp_all

lemma bucket_percents_rows:
  "bucket_percents (map (\<lambda>(label, c). BucketLine label c (g c)) rows) = map (\<lambda>(label, c). g c) rows"
  by (induction rows) auto

text \<open>
  With a non-empty list of lengths and a total count other than 0 nothing in
  \<^verbatim>\<open>generate_report\<close> raises: it returns its message and the report holds one line for
  each row of the distribution.
\<close>

lemma generate_report_ok:
  assumes "all_lengths \<noteq> []" and "total_count \<noteq> 0"
  shows "\<exists>f. generate_report args ts long_count total_count long_ids all_lengths
              = (Inr (arg_output args), f)
          \<and> bucket_percents f =
              map (\<lambda>(label, c). of_int c / of_int total_count * 100)
                (distribution (arg_min_length args) all_lengths)"
proof -
  from write_stats_ok [OF assms(1)] obtain lo hi mean where
    "write_stats all_lengths (write_head args ts long_count total_count) =
       (Inr (), write_head args ts long_count total_count
                 @ [Shortest lo, Longest hi, MeanLength mean, MedianLength (median all_lengths)])"
    by blast
  then show ?thesis
    using assms(2)
    by (simp add: generate_report_def write_buckets_ok bucket_percents_append
        bucket_percents_write_ids bucket_percents_rows write_head_def)
qed

lemma sum_percents:
  "sum_list (map (\<lambda>(label, c). of_int c / of_int total_count * 100) rows)
     = (of_int (sum_list (map snd rows)) / of_int total_count * 100 :: rat)"
  by (induction rows) (auto simp add: add_divide_distrib distrib_right)

text \<open>
  Claim C7. For every non-empty corpus and every threshold, the percentages of the six
  distribution lines of the report, each \<open>count / total_count * 100\<close> with \<open>total_count\<close>
  the number of lengths, sum to exactly 100. The program computes them in floating
  point; here they are exact rationals.
\<close>

theorem bucket_percentages_sum_to_100:
  assumes "all_lengths \<noteq> []" and "\<forall>l\<in>set all_lengths. 0 \<le> l"
  shows "sum_list (bucket_percents (snd (generate_report args ts long_count
           (int (length all_lengths)) long_ids all_lengths))) = 100"
proof -
  define n where "n = int (length all_lengths)"
  have tc: "n \<noteq> 0" using assms(1) by (simp add: n_def)
  from generate_report_ok [OF assms(1) tc] obtain f where
    run: "generate_report args ts long_count n long_ids all_lengths = (Inr (arg_output args), f)"
    and rows: "bucket_percents f =
           map (\<lambda>(label, c). of_int c / of_int n * 100)
             (distribution (arg_min_length args) all_lengths)"
    by blast
  have total: "sum_list (map snd (distribution (arg_min_length args) all_lengths)) = n"
    using distribution_total [OF assms(2)] by (simp add: n_def)
  have "sum_list (bucket_percents f) = (of_int n / of_int n * 100 :: rat)"
    by (simp only: rows sum_percents total)
  also have "\<dots> = 100" using tc by simp
  finally show ?thesis using run by (simp add: n_def)
qed

text \<open>Three records of lengths 50, 430 and 1200 under the default threshold.\<close>

theorem bucket_percentages_sum_to_100_witness:
  "bucket_percents (snd (generate_report
       \<lparr>arg_input = ''in.fasta'', arg_output = ''report.txt'', arg_min_length = 428\<rparr>
       ''2025-01-01 00:00:00'' 2 (int (length [50, 430, 1200::int])) [''b'', ''c''] [50, 430, 1200]))
     = [100 / 3, 0, 0, 100 / 3, 0, 100 / 3]
   \<and> sum_list [100 / 3, 0, 0, 100 / 3, 0, 100 / 3 :: rat] = 100"
proof -
  have ne: "[50, 430, 1200::int] \<noteq> []" by simp
  have nn: "\<forall>l\<in>set [50, 430, 1200::int]. 0 \<le> l" by simp
  have "bucket_percents (snd (generate_report
       \<lparr>arg_input = ''in.fasta'', arg_output = ''report.txt'', arg_min_length = 428\<rparr>
       ''2025-01-01 00:00:00'' 2 (int (length [50, 430, 1200::int])) [''b'', ''c''] [50, 430, 1200]))
     = [100 / 3, 0, 0, 100 / 3, 0, 100 / 3]"
    by (simp add: generate_report_def write_stats_def write_head_def py_truediv_def
        distribution_def bin_counts_def count_length_def bins_def labels_def upt_rec)
  with bucket_percentages_sum_to_100 [OF ne nn,
      of "\<lparr>arg_input = ''in.fasta'', arg_output = ''report.txt'', arg_min_length = 428\<rparr>"
      "''2025-01-01 00:00:00''" 2 "[''b'', ''c'']"]
  show ?thesis by simp
qed

subsection \<open>Failures and the report file\<close>





end
